theory Spec2Isabelle
  imports Complex_Main "HOL-Library.Log_Nat" "HOL-Library.Word"
begin

section \<open>MCUT math kernel (mcut/internal/math.h), exact-arithmetic build\<close>

text \<open>
  The header is modelled as it compiles with \<^verbatim>\<open>MCUT_WITH_ARBITRARY_PRECISION_NUMBERS\<close>
  defined: \<^verbatim>\<open>scalar_t\<close> is \<^verbatim>\<open>rational_number\<close>, an arbitrary-precision rational, here
  \<^typ>\<open>rat\<close>. A finite \<^verbatim>\<open>double\<close> is the rational number it denotes; infinities and NaN
  have no value in the model (a NaN produced by \<^verbatim>\<open>std::sqrt\<close> is \<open>None\<close>, a conversion
  of a rational number too large for a finite double is an error).
\<close>

type_synonym scalar_t = rat
type_synonym double = rat

datatype error =
    AssertionFailed      \<comment> \<open>a \<^verbatim>\<open>MCUT_ASSERT\<close> whose condition is false\<close>
  | OutOfBounds          \<comment> \<open>\<^verbatim>\<open>std::vector::operator[]\<close> past the end (undefined behaviour)\<close>
  | IntConversion        \<comment> \<open>\<^verbatim>\<open>int(double)\<close> of a value no \<^verbatim>\<open>int\<close> holds (undefined behaviour)\<close>
  | DivideByZero         \<comment> \<open>division of a \<^verbatim>\<open>rational_number\<close> by zero\<close>
  | NotANumber           \<comment> \<open>a NaN converted to a \<^verbatim>\<open>rational_number\<close>\<close>
  | NotFinite            \<comment> \<open>\<^verbatim>\<open>get_d()\<close> of a rational number beyond the finite doubles\<close>

text \<open>
  Modelled from the spec: \<^verbatim>\<open>MCUT_ASSERT\<close> is a macro of \<^verbatim>\<open>mcut/internal/utils.h\<close>, which is
  not among the sources. The specification (section 7) makes a contract violation a fatal
  assertion: the computation stops there. The second argument is the rest of the function
  body.
\<close>

definition MCUT_ASSERT :: "bool \<Rightarrow> error + 'a \<Rightarrow> error + 'a" where
  "MCUT_ASSERT a rest = (if a then rest else Inl AssertionFailed)"

subsection \<open>Double-precision arithmetic\<close>

text \<open>
  IEEE 754 binary64 with the default rounding (to nearest, ties to even): the result of an
  operation is the exact result rounded to 53 significant bits. The exponent range is not
  bounded in the model (no overflow to infinity, no subnormal numbers).
  \<open>ilog2 x\<close> is the binary exponent of a positive \<open>x\<close>: \<open>2 powi ilog2 x \<le> x < 2 powi (ilog2 x + 1)\<close>.
\<close>

definition ilog2 :: "rat \<Rightarrow> int" where
  "ilog2 x = (if 1 \<le> x then bitlen \<lfloor>x\<rfloor> - 1 else - bitlen (\<lceil>1 / x\<rceil> - 1))"

definition round_ties_even :: "rat \<Rightarrow> int" where
  "round_ties_even x =
     (let f = \<lfloor>x\<rfloor>; r = x - of_int f
      in if r < 1 / 2 then f else if 1 / 2 < r then f + 1 else if even f then f else f + 1)"

definition to_double :: "rat \<Rightarrow> double" where
  "to_double x =
     (if x = 0 then 0
      else let u = 2 powi (ilog2 \<bar>x\<bar> - 52) in of_int (round_ties_even (x / u)) * u)"

definition fdiv :: "double \<Rightarrow> double \<Rightarrow> double" where
  "fdiv a b = to_double (a / b)"

definition fmul :: "double \<Rightarrow> double \<Rightarrow> double" where
  "fmul a b = to_double (a * b)"

text \<open>The conversion \<^verbatim>\<open>int(x)\<close> of a double: the fractional part is discarded (truncation
  toward zero); the behaviour is undefined when the result does not fit a 32-bit \<^verbatim>\<open>int\<close>.\<close>

definition trunc_toward_zero :: "rat \<Rightarrow> int" where
  "trunc_toward_zero x = (if 0 \<le> x then \<lfloor>x\<rfloor> else \<lceil>x\<rceil>)"

definition double_to_int :: "double \<Rightarrow> error + int" where
  "double_to_int x =
     (let t = trunc_toward_zero x
      in if - (2 ^ 31) \<le> t \<and> t < 2 ^ 31 then Inr t else Inl IntConversion)"

text \<open>\<^verbatim>\<open>std::sqrt\<close>: the correctly rounded square root; NaN for a negative argument.
  \<open>floor_sqrt n\<close> is the integer square root, found by bisection.\<close>

function sqrt_bisect :: "int \<Rightarrow> int \<Rightarrow> int \<Rightarrow> int" where
  "sqrt_bisect lo hi n =
     (if hi \<le> lo + 1 then lo
      else let mid = (lo + hi) div 2
           in if mid * mid \<le> n then sqrt_bisect mid hi n else sqrt_bisect lo mid n)"
  by pat_completeness auto
termination
  by (relation "measure (\<lambda>(lo, hi, n). nat (hi - lo))") auto

declare sqrt_bisect.simps [simp del]

definition floor_sqrt :: "int \<Rightarrow> int" where
  "floor_sqrt n = sqrt_bisect 0 (n + 1) n"

definition std_sqrt :: "double \<Rightarrow> double option" where
  "std_sqrt x =
     (if x < 0 then None
      else if x = 0 then Some 0
      else let u = 2 powi (ilog2 x div 2 - 52);
               y = x / (u * u);
               s = floor_sqrt \<lfloor>y\<rfloor>;
               h = (of_int s + 1 / 2) * (of_int s + 1 / 2);
               N = (if y < h then s else if h < y then s + 1 else if even s then s else s + 1)
           in Some (of_int N * u))"

subsection \<open>Control flow\<close>

text \<open>Sequencing of two steps of which the first may fail.\<close>

definition and_then :: "error + 'a \<Rightarrow> ('a \<Rightarrow> error + 'b) \<Rightarrow> error + 'b" where
  "and_then r f = (case r of Inl e \<Rightarrow> Inl e | Inr v \<Rightarrow> f v)"

text \<open>The loop \<^verbatim>\<open>for (int i = i0; i < n; ++i) body\<close>, the body acting on a state.\<close>

function for_loop :: "int \<Rightarrow> int \<Rightarrow> (int \<Rightarrow> 's \<Rightarrow> error + 's) \<Rightarrow> 's \<Rightarrow> error + 's" where
  "for_loop i n body s =
     (if i < n
      then (case body i s of Inl e \<Rightarrow> Inl e | Inr s' \<Rightarrow> for_loop (i + 1) n body s')
      else Inr s)"
  by pat_completeness auto
termination
  by (relation "measure (\<lambda>(i, n, body, s). nat (n - i))") auto

declare for_loop.simps [simp del]

subsection \<open>class rational_number\<close>

text \<open>\<^verbatim>\<open>rational_number(double val)\<close> converts exactly.\<close>

definition rational_number :: "double \<Rightarrow> scalar_t" where
  "rational_number val = val"

text \<open>
  Modelled from the spec: \<^verbatim>\<open>get_d()\<close> is a member of the rational library's
  \<^verbatim>\<open>bigrational\<close> (\<^verbatim>\<open>nfg/numerics.h\<close>), which is not among the sources. The specification
  calls it a lossy floating-point extraction (section 6) that truncates to floating
  precision (section 3), and \<^verbatim>\<open>dequantize\<close> notes the same at its call
  (\<^verbatim>\<open>// NOTE: truncated\<close>). The result is the double next to \<open>r\<close> in the direction of zero:
  53 significant bits, and multiples of \<open>2^-1074\<close> below \<open>2^-1022\<close>, so that a value below
  \<open>2^-1074\<close> becomes 0. From \<open>2^1024\<close> on (a binary exponent \<open>ilog2 \<bar>r\<bar>\<close> of 1024 or more)
  no finite double is next to \<open>r\<close>; what is returned there is left to the library, and
  the model stops with \<open>NotFinite\<close>.
\<close>

definition get_d :: "scalar_t \<Rightarrow> error + double" where
  "get_d r =
     (if r = 0 then Inr 0
      else if 1024 \<le> ilog2 \<bar>r\<bar> then Inl NotFinite
      else let u = 2 powi (max (ilog2 \<bar>r\<bar> - 52) (- 1074))
           in Inr (of_int (trunc_toward_zero (r / u)) * u))"

definition zero :: scalar_t where
  "zero = rational_number 0"

definition one :: scalar_t where
  "one = rational_number 1"

definition quantize :: "double \<Rightarrow> double \<Rightarrow> error + scalar_t" where
  "quantize d m =
     MCUT_ASSERT (\<bar>d\<bar> \<le> m)
       (MCUT_ASSERT (m \<noteq> 0)
          (if d = 0 then Inr zero
           else let n = fdiv d m
                in case double_to_int (fmul n (2 ^ 26)) of
                     Inl e \<Rightarrow> Inl e
                   | Inr i \<Rightarrow> Inr (rational_number (of_int i))))"

definition dequantize :: "scalar_t \<Rightarrow> double \<Rightarrow> error + double" where
  "dequantize i m =
     (if i = zero then Inr 0
      else MCUT_ASSERT (i \<le> rational_number (2 ^ 26))
             (let n = i / rational_number (2 ^ 26);
                  d = n * rational_number m
              in and_then (get_d d) (\<lambda>result. MCUT_ASSERT (result \<le> m) (Inr result))))"

subsection \<open>The vector classes\<close>

text \<open>\<^verbatim>\<open>vec3_<T>\<close> derives from \<^verbatim>\<open>vec2_<T>\<close> and adds \<^verbatim>\<open>m_z\<close>: a record extension.
  A function on \<open>('a, 'b) vec2_scheme\<close> is a member of the base class; it accepts a
  \<open>vec3\<close> and sees its \<open>m_x\<close> and \<open>m_y\<close> only.\<close>

record 'a vec2 =
  m_x :: 'a
  m_y :: 'a

record 'a vec3 = "'a vec2" +
  m_z :: 'a

text \<open>\<^verbatim>\<open>vec3_(const T& value)\<close> and \<^verbatim>\<open>vec3_(x, y, z)\<close>.\<close>

definition vec3_splat :: "'a \<Rightarrow> 'a vec3" where
  "vec3_splat v = \<lparr>m_x = v, m_y = v, m_z = v\<rparr>"

definition make_vec2 :: "'a \<Rightarrow> 'a \<Rightarrow> 'a vec2" where
  "make_vec2 x y = \<lparr>m_x = x, m_y = y\<rparr>"

definition make_vec3 :: "'a \<Rightarrow> 'a \<Rightarrow> 'a \<Rightarrow> 'a vec3" where
  "make_vec3 x y z = \<lparr>m_x = x, m_y = y, m_z = z\<rparr>"

text \<open>\<^verbatim>\<open>bool vec2_<T>::operator==(const vec2_<T>& other) const\<close>, the only \<^verbatim>\<open>operator==\<close>
  that is a member of either class.\<close>

definition vec2_operator_eq :: "('a, 'b) vec2_scheme \<Rightarrow> ('a, 'c) vec2_scheme \<Rightarrow> bool" where
  "vec2_operator_eq this other = (m_x this = m_x other \<and> m_y this = m_y other)"

text \<open>
  Modelled from the spec: \<^verbatim>\<open>extern bool operator==(const vec3& a, const vec3& b)\<close> is declared
  in math.h (line 600) and defined outside the sources at hand. For two operands of type
  \<^verbatim>\<open>vec3\<close> (that is \<^verbatim>\<open>vec3_<scalar_t>\<close>) overload resolution selects it, an exact match,
  over the inherited member, which needs a derived-to-base conversion. The specification
  (section 3): a vector is ``an ordered tuple of 2 or 3 Scalars, \<dots> supporting \<dots>
  equality''; equality of ordered triples compares all three components.
\<close>

definition vec3_operator_eq :: "scalar_t vec3 \<Rightarrow> scalar_t vec3 \<Rightarrow> bool" where
  "vec3_operator_eq a b = (m_x a = m_x b \<and> m_y a = m_y b \<and> m_z a = m_z b)"

text \<open>\<^verbatim>\<open>const T& vec3_<T>::operator[](int index) const\<close>.\<close>

definition vec3_index :: "'a vec3 \<Rightarrow> int \<Rightarrow> error + 'a" where
  "vec3_index v index =
     MCUT_ASSERT (index \<ge> 0 \<and> index \<le> 2)
       (Inr (if index = 0 then m_x v else if index = 1 then m_y v else m_z v))"

text \<open>\<^verbatim>\<open>operator-\<close> of \<^verbatim>\<open>vec3_\<close> and \<^verbatim>\<open>operator/\<close> of both classes. The division is the
  rational library's; a zero divisor is an error of the model.\<close>

definition vec2_divide :: "scalar_t vec2 \<Rightarrow> scalar_t \<Rightarrow> error + scalar_t vec2" where
  "vec2_divide this number =
     (if number = 0 then Inl DivideByZero
      else Inr (make_vec2 (m_x this / number) (m_y this / number)))"

definition vec3_minus :: "'a::minus vec3 \<Rightarrow> 'a vec3 \<Rightarrow> 'a vec3" where
  "vec3_minus this other =
     make_vec3 (m_x this - m_x other) (m_y this - m_y other) (m_z this - m_z other)"

definition vec3_divide :: "scalar_t vec3 \<Rightarrow> scalar_t \<Rightarrow> error + scalar_t vec3" where
  "vec3_divide this number =
     (if number = 0 then Inl DivideByZero
      else Inr (make_vec3 (m_x this / number) (m_y this / number) (m_z this / number)))"

text \<open>The templates \<^verbatim>\<open>min\<close> and \<^verbatim>\<open>max\<close>, written with \<open><\<close> alone, and the component-wise
  \<^verbatim>\<open>compwise_min\<close>, \<^verbatim>\<open>compwise_max\<close> on \<^verbatim>\<open>vec3_\<close>.\<close>

definition min_t :: "'a::ord \<Rightarrow> 'a \<Rightarrow> 'a" where
  "min_t a b = (if b < a then b else a)"

definition max_t :: "'a::ord \<Rightarrow> 'a \<Rightarrow> 'a" where
  "max_t a b = (if a < b then b else a)"

definition compwise_min :: "'a::ord vec3 \<Rightarrow> 'a vec3 \<Rightarrow> 'a vec3" where
  "compwise_min a b =
     make_vec3 (min_t (m_x a) (m_x b)) (min_t (m_y a) (m_y b)) (min_t (m_z a) (m_z b))"

definition compwise_max :: "'a::ord vec3 \<Rightarrow> 'a vec3 \<Rightarrow> 'a vec3" where
  "compwise_max a b =
     make_vec3 (max_t (m_x a) (m_x b)) (max_t (m_y a) (m_y b)) (max_t (m_z a) (m_z b))"

text \<open>\<^verbatim>\<open>dot_product\<close> and \<^verbatim>\<open>squared_length\<close> at \<^verbatim>\<open>vector_type = vec3\<close>, whose
  \<^verbatim>\<open>cardinality()\<close> is 3.\<close>

definition dot_product :: "scalar_t vec3 \<Rightarrow> scalar_t vec3 \<Rightarrow> error + scalar_t" where
  "dot_product a b =
     for_loop 0 3
       (\<lambda>i out. and_then (vec3_index a i) (\<lambda>ai.
                 and_then (vec3_index b i) (\<lambda>bi. Inr (out + ai * bi))))
       (rational_number 0)"

definition squared_length :: "scalar_t vec3 \<Rightarrow> error + scalar_t" where
  "squared_length v = dot_product v v"

subsection \<open>Square root, length and normalize\<close>

text \<open>\<^verbatim>\<open>square_root<scalar_t>\<close>: a NaN from \<^verbatim>\<open>std::sqrt\<close> fails the first assertion of
  \<^verbatim>\<open>quantize\<close>, every comparison with NaN being false.\<close>

definition square_root :: "scalar_t \<Rightarrow> double \<Rightarrow> error + scalar_t" where
  "square_root number multiplier =
     and_then (dequantize number multiplier) (\<lambda>dequantized.
       case std_sqrt dequantized of
         None \<Rightarrow> Inl AssertionFailed
       | Some sqrt_val \<Rightarrow> quantize sqrt_val multiplier)"

text \<open>The primary template \<^verbatim>\<open>length\<close> of the exact build, which every vector type
  without a specialisation gets (\<^verbatim>\<open>vec2\<close> among them): \<^verbatim>\<open>MCUT_ASSERT(false)\<close>, then a
  default-constructed scalar.\<close>

definition length_primary :: "'v \<Rightarrow> double \<Rightarrow> error + scalar_t" where
  "length_primary v multiplier = MCUT_ASSERT False (Inr (rational_number 0))"

text \<open>The specialisation \<^verbatim>\<open>length(const vec3_<scalar_t>& v, double /*multiplier*/)\<close> and
  the template \<^verbatim>\<open>normalize\<close> at \<^verbatim>\<open>vec3\<close> and at \<^verbatim>\<open>vec2\<close>.\<close>

definition length_vec3 :: "scalar_t vec3 \<Rightarrow> double \<Rightarrow> error + scalar_t" where
  "length_vec3 v multiplier =
     and_then (squared_length v) (\<lambda>sq.
     and_then (get_d sq) (\<lambda>d.
       case std_sqrt d of
         None \<Rightarrow> Inl NotANumber
       | Some r \<Rightarrow> Inr (rational_number r)))"

definition normalize_vec3 :: "scalar_t vec3 \<Rightarrow> double \<Rightarrow> error + scalar_t vec3" where
  "normalize_vec3 v multiplier = and_then (length_vec3 v multiplier) (vec3_divide v)"

definition normalize_vec2 :: "scalar_t vec2 \<Rightarrow> double \<Rightarrow> error + scalar_t vec2" where
  "normalize_vec2 v multiplier = and_then (length_primary v multiplier) (vec2_divide v)"

subsection \<open>The matrix class\<close>

text \<open>\<^verbatim>\<open>m_rows\<close> and \<^verbatim>\<open>m_cols\<close> are \<^verbatim>\<open>int\<close>; the constructor and \<^verbatim>\<open>operator()\<close> take
  \<^verbatim>\<open>unsigned int\<close>; the offset into \<^verbatim>\<open>m_entries\<close> is computed in \<^verbatim>\<open>size_t\<close> (64 bits).\<close>

record 'a matrix_t =
  m_rows :: int
  m_cols :: int
  m_entries :: "'a list"

definition matrix_ctor :: "32 word \<Rightarrow> 32 word \<Rightarrow> 'a::zero matrix_t" where
  "matrix_ctor rows cols =
     \<lparr>m_rows = sint rows, m_cols = sint cols,
      m_entries = replicate (unat rows * unat cols) 0\<rparr>"

definition entry_offset :: "'a matrix_t \<Rightarrow> 32 word \<Rightarrow> 32 word \<Rightarrow> nat" where
  "entry_offset M row col =
     unat ((ucast row :: 64 word) * word_of_int (m_cols M) + ucast col)"

definition matrix_get :: "'a matrix_t \<Rightarrow> int \<Rightarrow> int \<Rightarrow> error + 'a" where
  "matrix_get M row col =
     (let k = entry_offset M (word_of_int row) (word_of_int col)
      in if k < length (m_entries M) then Inr (m_entries M ! k) else Inl OutOfBounds)"

definition matrix_set :: "'a matrix_t \<Rightarrow> int \<Rightarrow> int \<Rightarrow> 'a \<Rightarrow> error + 'a matrix_t" where
  "matrix_set M row col v =
     (let k = entry_offset M (word_of_int row) (word_of_int col)
      in if k < length (m_entries M) then Inr (M\<lparr>m_entries := (m_entries M)[k := v]\<rparr>)
         else Inl OutOfBounds)"

text \<open>\<^verbatim>\<open>matrix_t<T> operator*(const matrix_t<T>& other) const\<close>.\<close>

definition matrix_times :: "'a::semiring_0 matrix_t \<Rightarrow> 'a matrix_t \<Rightarrow> error + 'a matrix_t" where
  "matrix_times this other =
     for_loop 0 (m_rows this)
       (\<lambda>i. for_loop 0 (m_cols other)
         (\<lambda>j. for_loop 0 (m_cols this)
           (\<lambda>k result.
              and_then (matrix_get this i k) (\<lambda>a.
              and_then (matrix_get other k j) (\<lambda>b.
              and_then (matrix_get result i j) (\<lambda>r.
                matrix_set result i j (r + a * b)))))))
       (matrix_ctor (word_of_int (m_rows this)) (word_of_int (m_cols other)))"

text \<open>\<^verbatim>\<open>matrix_t<T> operator-(const matrix_t<T>& m) const\<close>.\<close>

definition matrix_minus :: "'a::{zero,minus} matrix_t \<Rightarrow> 'a matrix_t \<Rightarrow> error + 'a matrix_t" where
  "matrix_minus this m =
     MCUT_ASSERT (m_rows m = m_rows this)
       (MCUT_ASSERT (m_cols m = m_cols this)
          (for_loop 0 (m_rows this)
             (\<lambda>i. for_loop 0 (m_cols this)
               (\<lambda>j result.
                  and_then (matrix_get this i j) (\<lambda>a.
                  and_then (matrix_get m i j) (\<lambda>b.
                    matrix_set result i j (a - b)))))
             (matrix_ctor (word_of_int (m_rows this)) (word_of_int (m_cols this)))))"

subsection \<open>The bounding-box class\<close>

record 'v bounding_box_t =
  m_minimum :: 'v
  m_maximum :: 'v

text \<open>\<^verbatim>\<open>std::numeric_limits<double>::max()\<close>, the largest finite double.\<close>

definition DBL_MAX :: double where
  "DBL_MAX = (2 ^ 53 - 1) * 2 ^ 971"

text \<open>The default constructor, at \<^verbatim>\<open>vector_type = vec3\<close>.\<close>

definition bounding_box_default :: "scalar_t vec3 bounding_box_t" where
  "bounding_box_default =
     \<lparr>m_minimum = vec3_splat (rational_number DBL_MAX),
      m_maximum = vec3_splat (rational_number (- DBL_MAX))\<rparr>"

text \<open>\<^verbatim>\<open>void expand(const vector_type& point)\<close>: the maximum is assigned first.\<close>

definition expand :: "'a::ord vec3 bounding_box_t \<Rightarrow> 'a vec3 \<Rightarrow> 'a vec3 bounding_box_t" where
  "expand box point =
     (let box1 = box\<lparr>m_maximum := compwise_max (m_maximum box) point\<rparr>
      in box1\<lparr>m_minimum := compwise_min (m_minimum box1) point\<rparr>)"

definition MaximumExtent :: "scalar_t vec3 bounding_box_t \<Rightarrow> int" where
  "MaximumExtent box =
     (let diag = vec3_minus (m_maximum box) (m_minimum box)
      in if m_x diag > m_y diag \<and> m_x diag > m_z diag then 0
         else if m_y diag > m_z diag then 1
         else 2)"

definition intersect_bounding_boxes ::
  "'a::ord vec3 bounding_box_t \<Rightarrow> 'a vec3 bounding_box_t \<Rightarrow> bool" where
  "intersect_bounding_boxes a b =
     (let amin = m_minimum a; amax = m_maximum a; bmin = m_minimum b; bmax = m_maximum b
      in (m_x amin \<le> m_x bmax \<and> m_x amax \<ge> m_x bmin) \<and>
         (m_y amin \<le> m_y bmax \<and> m_y amax \<ge> m_y bmin) \<and>
         (m_z amin \<le> m_z bmax \<and> m_z amax \<ge> m_z bmin))"

subsection \<open>Exact orientation predicates\<close>

text \<open>The overloads on \<^verbatim>\<open>const scalar_t*\<close>. A pointer argument is the array it points to;
  reading past its end is undefined behaviour, an error of the model.\<close>

definition orient2d :: "scalar_t list \<Rightarrow> scalar_t list \<Rightarrow> scalar_t list \<Rightarrow> error + scalar_t" where
  "orient2d pa pb pc =
     (if length pa < 2 \<or> length pb < 2 \<or> length pc < 2 then Inl OutOfBounds
      else let acx = pa ! 0 - pc ! 0;
               bcx = pb ! 0 - pc ! 0;
               acy = pa ! 1 - pc ! 1;
               bcy = pb ! 1 - pc ! 1
           in Inr (acx * bcy - acy * bcx))"

definition orient3d ::
  "scalar_t list \<Rightarrow> scalar_t list \<Rightarrow> scalar_t list \<Rightarrow> scalar_t list \<Rightarrow> error + scalar_t" where
  "orient3d pa pb pc pd =
     (if length pa < 3 \<or> length pb < 3 \<or> length pc < 3 \<or> length pd < 3 then Inl OutOfBounds
      else let adx = pa ! 0 - pd ! 0;
               bdx = pb ! 0 - pd ! 0;
               cdx = pc ! 0 - pd ! 0;
               ady = pa ! 1 - pd ! 1;
               bdy = pb ! 1 - pd ! 1;
               cdy = pc ! 1 - pd ! 1;
               adz = pa ! 2 - pd ! 2;
               bdz = pb ! 2 - pd ! 2;
               cdz = pc ! 2 - pd ! 2
           in Inr (adx * (bdy * cdz - bdz * cdy) + bdx * (cdy * adz - cdz * ady) +
                   cdx * (ady * bdz - adz * bdy)))"

text \<open>Component-wise order of two points, used to state the properties of boxes.\<close>

definition vec3_le :: "'a::ord vec3 \<Rightarrow> 'a vec3 \<Rightarrow> bool" where
  "vec3_le a b = (m_x a \<le> m_x b \<and> m_y a \<le> m_y b \<and> m_z a \<le> m_z b)"

section \<open>Verified properties\<close>

subsection \<open>Properties of the rounding\<close>

lemma round_ties_even_le: "x \<le> of_int N \<Longrightarrow> round_ties_even x \<le> N"
proof -
  assume a: "x \<le> of_int N"
  have f: "\<lfloor>x\<rfloor> \<le> N" using a by (simp add: floor_le_iff)
  show ?thesis
  proof (cases "x = of_int \<lfloor>x\<rfloor>")
    case True
    then have "round_ties_even x = \<lfloor>x\<rfloor>" by (simp add: round_ties_even_def Let_def)
    with f show ?thesis by simp
  next
    case False
    then have "of_int \<lfloor>x\<rfloor> < x" using of_int_floor_le [of x] by linarith
    then have "of_int \<lfloor>x\<rfloor> < (of_int N :: rat)" using a by linarith
    then have "\<lfloor>x\<rfloor> < N" by simp
    moreover have "round_ties_even x \<le> \<lfloor>x\<rfloor> + 1"
      by (simp add: round_ties_even_def Let_def)
    ultimately show ?thesis by linarith
  qed
qed

lemma round_ties_even_ge: "of_int N \<le> x \<Longrightarrow> N \<le> round_ties_even x"
proof -
  assume "of_int N \<le> x"
  then have "N \<le> \<lfloor>x\<rfloor>" by (simp add: le_floor_iff)
  moreover have "\<lfloor>x\<rfloor> \<le> round_ties_even x"
    by (simp add: round_ties_even_def Let_def)
  ultimately show ?thesis by linarith
qed

lemma ilog2_lower: "0 < x \<Longrightarrow> 2 powi (ilog2 x) \<le> x"
proof -
  assume pos: "0 < x"
  show ?thesis
  proof (cases "1 \<le> x")
    case True
    then have n: "0 < \<lfloor>x\<rfloor>" by (simp add: floor_less_iff)
    from bitlen_bounds [OF n] have b: "2 ^ nat (bitlen \<lfloor>x\<rfloor> - 1) \<le> \<lfloor>x\<rfloor>" by simp
    have b1: "1 \<le> bitlen \<lfloor>x\<rfloor>" using n by (simp add: bitlen_alt_def)
    have "(2::rat) powi (bitlen \<lfloor>x\<rfloor> - 1) = 2 ^ nat (bitlen \<lfloor>x\<rfloor> - 1)"
      using b1 by (simp add: power_int_def)
    also have "\<dots> = of_int (2 ^ nat (bitlen \<lfloor>x\<rfloor> - 1))" by simp
    also have "\<dots> \<le> of_int \<lfloor>x\<rfloor>" using b by (simp only: of_int_le_iff)
    also have "\<dots> \<le> x" by simp
    finally show ?thesis using True by (simp add: ilog2_def)
  next
    case False
    then have lt: "x < 1" by simp
    have "1 < 1 / x" using pos lt by (simp add: field_simps)
    then have c: "2 \<le> \<lceil>1 / x\<rceil>" by (simp add: le_ceiling_iff)
    then have c0: "0 < \<lceil>1 / x\<rceil> - 1" by simp
    let ?b = "bitlen (\<lceil>1 / x\<rceil> - 1)"
    from bitlen_bounds [OF c0] have "\<lceil>1 / x\<rceil> - 1 < 2 ^ nat ?b" by simp
    then have "\<lceil>1 / x\<rceil> \<le> 2 ^ nat ?b" by simp
    then have "(of_int \<lceil>1 / x\<rceil> :: rat) \<le> of_int (2 ^ nat ?b)" by (simp only: of_int_le_iff)
    moreover have "(of_int (2 ^ nat ?b) :: rat) = 2 ^ nat ?b" by simp
    ultimately have "1 / x \<le> 2 ^ nat ?b" using le_of_int_ceiling [of "1 / x"] by linarith
    then have "1 / 2 ^ nat ?b \<le> x" using pos by (simp add: field_simps)
    moreover have "(2::rat) powi (- ?b) = 1 / 2 ^ nat ?b"
      using bitlen_nonneg [of "\<lceil>1 / x\<rceil> - 1"] by (simp add: power_int_def field_simps)
    ultimately show ?thesis using False by (simp add: ilog2_def)
  qed
qed

lemma ilog2_upper: "0 < x \<Longrightarrow> x < 2 powi (ilog2 x + 1)"
proof -
  assume pos: "0 < x"
  show ?thesis
  proof (cases "1 \<le> x")
    case True
    then have n: "0 < \<lfloor>x\<rfloor>" by (simp add: floor_less_iff)
    from bitlen_bounds [OF n] have "\<lfloor>x\<rfloor> < 2 ^ nat (bitlen \<lfloor>x\<rfloor>)" by simp
    then have "\<lfloor>x\<rfloor> + 1 \<le> 2 ^ nat (bitlen \<lfloor>x\<rfloor>)" by simp
    then have "(of_int (\<lfloor>x\<rfloor> + 1) :: rat) \<le> of_int (2 ^ nat (bitlen \<lfloor>x\<rfloor>))"
      by (simp only: of_int_le_iff)
    moreover have "x < of_int (\<lfloor>x\<rfloor> + 1)" by simp linarith
    ultimately have "x < 2 ^ nat (bitlen \<lfloor>x\<rfloor>)" by simp
    moreover have "(2::rat) powi (bitlen \<lfloor>x\<rfloor>) = 2 ^ nat (bitlen \<lfloor>x\<rfloor>)"
      using bitlen_nonneg [of "\<lfloor>x\<rfloor>"] by (simp add: power_int_def)
    ultimately show ?thesis using True by (simp add: ilog2_def)
  next
    case False
    then have lt: "x < 1" by simp
    have "1 < 1 / x" using pos lt by (simp add: field_simps)
    then have c: "2 \<le> \<lceil>1 / x\<rceil>" by (simp add: le_ceiling_iff)
    then have c0: "0 < \<lceil>1 / x\<rceil> - 1" by simp
    let ?b = "bitlen (\<lceil>1 / x\<rceil> - 1)"
    have b1: "1 \<le> ?b" using c0 by (simp add: bitlen_alt_def)
    from bitlen_bounds [OF c0] have "2 ^ nat (?b - 1) \<le> \<lceil>1 / x\<rceil> - 1" by simp
    then have "(of_int (2 ^ nat (?b - 1)) :: rat) \<le> of_int (\<lceil>1 / x\<rceil> - 1)"
      by (simp only: of_int_le_iff)
    moreover have "of_int (\<lceil>1 / x\<rceil> - 1) < 1 / x" using ceiling_correct [of "1 / x"] by simp
    ultimately have "2 ^ nat (?b - 1) < 1 / x" by simp
    then have "x < 1 / 2 ^ nat (?b - 1)" using pos by (simp add: field_simps)
    moreover have "(2::rat) powi (- ?b + 1) = 1 / 2 ^ nat (?b - 1)"
      using b1 by (simp add: power_int_def field_simps)
    ultimately show ?thesis using False by (simp add: ilog2_def)
  qed
qed

text \<open>Rounding never crosses a power of two: powers of two are themselves doubles.\<close>

lemma to_double_abs_le: "\<bar>x\<bar> \<le> 2 ^ k \<Longrightarrow> \<bar>to_double x\<bar> \<le> 2 ^ k"
proof (cases "x = 0")
  case True
  then show ?thesis by (simp add: to_double_def)
next
  case False
  assume a: "\<bar>x\<bar> \<le> 2 ^ k"
  let ?e = "ilog2 \<bar>x\<bar>"
  let ?u = "(2::rat) powi (?e - 52)"
  have pos: "0 < \<bar>x\<bar>" using False by simp
  have upos: "0 < ?u" by simp
  have "2 powi ?e \<le> \<bar>x\<bar>" using ilog2_lower [OF pos] .
  then have "(2::rat) powi ?e \<le> 2 powi (int k)" using a by simp
  then have ek: "?e \<le> int k" by (rule power_int_le_imp_le_exp [rotated]) simp_all
  define N :: int where "N = 2 ^ nat (int k - ?e + 52)"
  have Nu: "of_int N * ?u = 2 ^ k"
  proof -
    have "of_int N = (2::rat) powi (int k - ?e + 52)" using ek by (simp add: N_def power_int_def)
    moreover have "(2::rat) powi (int k - ?e + 52) * 2 powi (?e - 52)
        = 2 powi ((int k - ?e + 52) + (?e - 52))"
      by (rule power_int_add [symmetric]) simp
    moreover have "(int k - ?e + 52) + (?e - 52) = int k" by simp
    ultimately have "of_int N * ?u = 2 powi (int k)" by (simp only:)
    then show ?thesis by (simp only: power_int_of_nat)
  qed
  have le: "\<bar>x / ?u\<bar> \<le> of_int N"
  proof -
    have "\<bar>x / ?u\<bar> = \<bar>x\<bar> / ?u" using upos by (simp add: abs_divide)
    also have "\<dots> \<le> 2 ^ k / ?u" using a upos by (simp add: divide_right_mono)
    also have "\<dots> = of_int N" using Nu upos by (simp add: field_simps)
    finally show ?thesis .
  qed
  have "x / ?u \<le> of_int N" using le by (rule abs_le_D1)
  then have r1: "round_ties_even (x / ?u) \<le> N" by (rule round_ties_even_le)
  have "- (x / ?u) \<le> of_int N" using le by (rule abs_le_D2)
  then have "of_int (- N) \<le> x / ?u" by simp
  then have "- N \<le> round_ties_even (x / ?u)" by (rule round_ties_even_ge)
  with r1 have "\<bar>round_ties_even (x / ?u)\<bar> \<le> N" by linarith
  then have "\<bar>of_int (round_ties_even (x / ?u)) :: rat\<bar> \<le> of_int N"
    by (metis of_int_abs of_int_le_iff)
  then have "\<bar>of_int (round_ties_even (x / ?u)) * ?u\<bar> \<le> of_int N * ?u"
    using upos by (simp add: abs_mult mult_right_mono)
  then show ?thesis using False Nu by (simp add: to_double_def Let_def)
qed

lemma trunc_toward_zero_abs_le:
  assumes a: "\<bar>x\<bar> \<le> of_int N"
  shows "\<bar>trunc_toward_zero x\<bar> \<le> N"
proof (cases "0 \<le> x")
  case True
  with a have "x \<le> of_int N" by simp
  then have "\<lfloor>x\<rfloor> \<le> N" by (simp add: floor_le_iff)
  moreover have "0 \<le> \<lfloor>x\<rfloor>" using True by simp
  ultimately show ?thesis using True by (simp add: trunc_toward_zero_def)
next
  case False
  with a have "of_int (- N) \<le> x" by simp
  then have "- N \<le> \<lceil>x\<rceil>" by (simp add: le_ceiling_iff)
  moreover have "\<lceil>x\<rceil> \<le> 0" using False by (simp add: ceiling_le_iff)
  ultimately show ?thesis using False by (simp add: trunc_toward_zero_def)
qed

text \<open>The rounding is to nearest, it fixes the doubles, and it commutes with a scaling by a
  power of two.\<close>

lemma round_ties_even_error: "\<bar>of_int (round_ties_even x) - x\<bar> \<le> 1 / 2"
proof -
  have "of_int \<lfloor>x\<rfloor> \<le> x" and "x < of_int \<lfloor>x\<rfloor> + 1" by linarith+
  then show ?thesis
    by (auto simp: round_ties_even_def Let_def abs_le_iff)
qed

lemma to_double_error:
  assumes "x \<noteq> 0"
  shows "\<bar>to_double x - x\<bar> \<le> 2 powi (ilog2 \<bar>x\<bar> - 52) / 2"
proof -
  let ?u = "(2::rat) powi (ilog2 \<bar>x\<bar> - 52)"
  have upos: "0 < ?u" by simp
  have "to_double x - x = (of_int (round_ties_even (x / ?u)) - x / ?u) * ?u"
    using assms upos by (simp add: to_double_def Let_def field_simps)
  then have "\<bar>to_double x - x\<bar> = \<bar>of_int (round_ties_even (x / ?u)) - x / ?u\<bar> * ?u"
    using upos by (simp add: abs_mult)
  also have "\<dots> \<le> 1 / 2 * ?u"
    using round_ties_even_error [of "x / ?u"] upos by (intro mult_right_mono) simp_all
  finally show ?thesis by simp
qed

lemma to_double_nonneg: "0 \<le> x \<Longrightarrow> 0 \<le> to_double x"
proof -
  assume a: "0 \<le> x"
  let ?u = "(2::rat) powi (ilog2 \<bar>x\<bar> - 52)"
  have "of_int 0 \<le> x / ?u" using a by simp
  then have "0 \<le> round_ties_even (x / ?u)" by (rule round_ties_even_ge)
  then show ?thesis by (simp add: to_double_def Let_def)
qed

lemma ilog2_unique:
  assumes "0 < x" and lo: "2 powi e \<le> x" and hi: "x < 2 powi (e + 1)"
  shows "ilog2 x = e"
proof -
  have l: "(2::rat) powi (ilog2 x) \<le> x" using assms(1) by (rule ilog2_lower)
  have a: "ilog2 x < e + 1"
  proof (rule ccontr)
    assume "\<not> ilog2 x < e + 1"
    then have "e + 1 \<le> ilog2 x" by simp
    then have "(2::rat) powi (e + 1) \<le> 2 powi (ilog2 x)" by (rule power_int_increasing) simp
    with l hi show False by linarith
  qed
  have h: "x < 2 powi (ilog2 x + 1)" using assms(1) by (rule ilog2_upper)
  have "e < ilog2 x + 1"
  proof (rule ccontr)
    assume "\<not> e < ilog2 x + 1"
    then have "ilog2 x + 1 \<le> e" by simp
    then have "(2::rat) powi (ilog2 x + 1) \<le> 2 powi e" by (rule power_int_increasing) simp
    with h lo show False by linarith
  qed
  with a show ?thesis by linarith
qed

lemma round_ties_even_of_int [simp]: "round_ties_even (of_int n) = n"
  by (simp add: round_ties_even_def)

lemma ilog2_scale:
  assumes "0 < x"
  shows "ilog2 (x * 2 ^ k) = ilog2 x + int k"
proof (rule ilog2_unique)
  show "0 < x * 2 ^ k" using assms by simp
  have "(2::rat) powi (ilog2 x + int k) = 2 powi (ilog2 x) * 2 ^ k"
    by (simp add: power_int_add)
  also have "\<dots> \<le> x * 2 ^ k" using ilog2_lower [OF assms] by simp
  finally show "2 powi (ilog2 x + int k) \<le> x * 2 ^ k" .
  have "x * 2 ^ k < 2 powi (ilog2 x + 1) * 2 ^ k" using ilog2_upper [OF assms] by simp
  also have "\<dots> = 2 powi (ilog2 x + int k + 1)"
    by (simp add: power_int_add)
  finally show "x * 2 ^ k < 2 powi (ilog2 x + int k + 1)" .
qed

lemma to_double_scale: "to_double (x * 2 ^ k) = to_double x * 2 ^ k"
proof (cases "x = 0")
  case True
  then show ?thesis by (simp add: to_double_def)
next
  case False
  then have pos: "0 < \<bar>x\<bar>" by simp
  have e: "ilog2 \<bar>x * 2 ^ k\<bar> = ilog2 \<bar>x\<bar> + int k"
    using ilog2_scale [OF pos, of k] by (simp add: abs_mult)
  let ?u = "(2::rat) powi (ilog2 \<bar>x\<bar> - 52)"
  have u: "(2::rat) powi (ilog2 \<bar>x\<bar> + int k - 52) = ?u * 2 ^ k"
  proof -
    have "ilog2 \<bar>x\<bar> + int k - 52 = (ilog2 \<bar>x\<bar> - 52) + int k" by simp
    moreover have "(2::rat) powi ((ilog2 \<bar>x\<bar> - 52) + int k) = ?u * 2 ^ k"
      by (simp add: power_int_add)
    ultimately show ?thesis by (simp only:)
  qed
  have q: "x * 2 ^ k / (?u * 2 ^ k) = x / ?u" by simp
  show ?thesis using False by (simp add: to_double_def Let_def e u q del: mult_divide_mult_cancel_right)
qed

lemma to_double_eq:
  "y \<noteq> 0 \<Longrightarrow> ilog2 \<bar>y\<bar> = e \<Longrightarrow>
   to_double y = of_int (round_ties_even (y / 2 powi (e - 52))) * 2 powi (e - 52)"
  by (simp add: to_double_def Let_def)

lemma to_double_idem: "to_double (to_double x) = to_double x"
proof (cases "x = 0")
  case True
  then show ?thesis by (simp add: to_double_def)
next
  case False
  let ?e = "ilog2 \<bar>x\<bar>"
  let ?u = "(2::rat) powi (?e - 52)"
  define N where "N = round_ties_even (x / ?u)"
  have pos: "0 < \<bar>x\<bar>" using False by simp
  have upos: "0 < ?u" by simp
  have d: "to_double x = of_int N * ?u" using False by (simp add: to_double_def Let_def N_def)
  have u52: "2 ^ 52 * ?u = 2 powi ?e"
  proof -
    have "(2::rat) powi (52 + (?e - 52)) = 2 powi 52 * ?u"
      by (rule power_int_add) simp
    then show ?thesis by simp
  qed
  have u53: "2 ^ 53 * ?u = 2 powi (?e + 1)"
  proof -
    have "(2::rat) powi (53 + (?e - 52)) = 2 powi 53 * ?u"
      by (rule power_int_add) simp
    moreover have "53 + (?e - 52) = ?e + 1" by simp
    ultimately show ?thesis by simp
  qed
  have "2 powi ?e \<le> \<bar>x\<bar>" using pos by (rule ilog2_lower)
  then have "2 ^ 52 * ?u \<le> \<bar>x\<bar>" by (simp only: u52)
  then have lo: "of_int (2 ^ 52) \<le> \<bar>x / ?u\<bar>" using upos by (simp add: field_simps)
  have "\<bar>x\<bar> < 2 powi (?e + 1)" using pos by (rule ilog2_upper)
  then have "\<bar>x\<bar> < 2 ^ 53 * ?u" by (simp only: u53)
  then have hi: "\<bar>x / ?u\<bar> \<le> of_int (2 ^ 53)" using upos by (simp add: field_simps)
  have Nabs: "2 ^ 52 \<le> \<bar>N\<bar> \<and> \<bar>N\<bar> \<le> 2 ^ 53"
  proof (cases "0 \<le> x")
    case True
    then have "\<bar>x / ?u\<bar> = x / ?u" by simp
    with lo hi have b: "of_int (2 ^ 52) \<le> x / ?u" "x / ?u \<le> of_int (2 ^ 53)" by simp_all
    have "2 ^ 52 \<le> N" unfolding N_def using b(1) by (rule round_ties_even_ge)
    moreover have "N \<le> 2 ^ 53" unfolding N_def using b(2) by (rule round_ties_even_le)
    ultimately show ?thesis by simp
  next
    case F: False
    then have "\<bar>x / ?u\<bar> = - (x / ?u)" using upos by (simp add: abs_if field_simps)
    with lo hi have b: "x / ?u \<le> of_int (- (2 ^ 52))" "of_int (- (2 ^ 53)) \<le> x / ?u"
      by simp_all
    have "N \<le> - (2 ^ 52)" unfolding N_def using b(1) by (rule round_ties_even_le)
    moreover have "- (2 ^ 53) \<le> N" unfolding N_def using b(2) by (rule round_ties_even_ge)
    ultimately show ?thesis by simp
  qed
  then have N0: "N \<noteq> 0" by auto
  have dabs: "\<bar>of_int N * ?u\<bar> = of_int \<bar>N\<bar> * ?u" using upos by (simp add: abs_mult)
  have nz: "of_int N * ?u \<noteq> 0" using N0 upos by simp
  have "to_double (of_int N * ?u) = of_int N * ?u"
  proof (cases "\<bar>N\<bar> = 2 ^ 53")
    case True
    then have "\<bar>of_int N * ?u\<bar> = 2 powi (?e + 1)" using u53 dabs by simp
    then have e1: "ilog2 \<bar>of_int N * ?u\<bar> = ?e + 1"
      by (intro ilog2_unique) (simp_all add: power_int_add)
    have u2: "(2::rat) powi (?e + 1 - 52) = 2 * ?u"
    proof -
      have "(2::rat) powi (1 + (?e - 52)) = 2 powi 1 * ?u" by (rule power_int_add) simp
      moreover have "1 + (?e - 52) = ?e + 1 - 52" by simp
      ultimately show ?thesis by simp
    qed
    have "even \<bar>N\<bar>" unfolding True by simp
    then have "even N" by simp
    then have half: "(of_int N :: rat) = 2 * of_int (N div 2)"
      by (metis dvd_mult_div_cancel of_int_mult of_int_numeral)
    have q: "of_int N * ?u / (2 * ?u) = of_int (N div 2)"
      using upos by (simp add: half)
    have "to_double (of_int N * ?u)
        = of_int (round_ties_even (of_int N * ?u / (2 * ?u))) * (2 * ?u)"
      using to_double_eq [OF nz e1] by (simp only: u2)
    also have "\<dots> = of_int (N div 2) * (2 * ?u)"
      by (simp only: q round_ties_even_of_int)
    also have "\<dots> = of_int N * ?u" by (simp add: half)
    finally show ?thesis .
  next
    case False
    with Nabs have lt: "\<bar>N\<bar> < 2 ^ 53" by simp
    have "2 powi ?e \<le> \<bar>of_int N * ?u\<bar>"
    proof -
      have "(of_int (2 ^ 52) :: rat) \<le> of_int \<bar>N\<bar>" using Nabs by (simp only: of_int_le_iff)
      then have "2 ^ 52 * ?u \<le> of_int \<bar>N\<bar> * ?u" using upos by (intro mult_right_mono) simp_all
      then show ?thesis by (simp only: u52 dabs)
    qed
    moreover have "\<bar>of_int N * ?u\<bar> < 2 powi (?e + 1)"
    proof -
      have "(of_int \<bar>N\<bar> :: rat) < of_int (2 ^ 53)" using lt by (simp only: of_int_less_iff)
      then have "of_int \<bar>N\<bar> * ?u < 2 ^ 53 * ?u" using upos by (intro mult_strict_right_mono) simp_all
      then show ?thesis by (simp only: u53 dabs)
    qed
    moreover have "0 < \<bar>of_int N * ?u\<bar>" using N0 upos by simp
    ultimately have e0: "ilog2 \<bar>of_int N * ?u\<bar> = ?e" by (intro ilog2_unique)
    have q: "of_int N * ?u / ?u = of_int N" using upos by simp
    have "to_double (of_int N * ?u) = of_int (round_ties_even (of_int N * ?u / ?u)) * ?u"
      using to_double_eq [OF nz e0] .
    also have "\<dots> = of_int N * ?u" by (simp only: q round_ties_even_of_int)
    finally show ?thesis .
  qed
  then show ?thesis by (simp only: d)
qed

lemma fmul_pow2_exact: "fmul (to_double x) (2 ^ k) = to_double x * 2 ^ k"
  by (simp add: fmul_def to_double_scale to_double_idem)

text \<open>The integer square root is exact and \<open>std_sqrt\<close> is within half a unit in the last
  place of the square root: \<open>(r - u/2)\<^sup>2 \<le> x \<le> (r + u/2)\<^sup>2\<close>.\<close>

lemma sqrt_bisect_correct:
  "0 \<le> lo \<Longrightarrow> lo < hi \<Longrightarrow> lo * lo \<le> n \<Longrightarrow> n < hi * hi \<Longrightarrow>
   sqrt_bisect lo hi n * sqrt_bisect lo hi n \<le> n
   \<and> n < (sqrt_bisect lo hi n + 1) * (sqrt_bisect lo hi n + 1)
   \<and> 0 \<le> sqrt_bisect lo hi n"
proof (induction lo hi n rule: sqrt_bisect.induct)
  case (1 lo hi n)
  show ?case
  proof (cases "hi \<le> lo + 1")
    case True
    then have eq: "sqrt_bisect lo hi n = lo" by (subst sqrt_bisect.simps) simp
    from True "1.prems" have "hi = lo + 1" by simp
    with "1.prems" show ?thesis unfolding eq by simp
  next
    case False
    let ?mid = "(lo + hi) div 2"
    have m: "lo < ?mid" "?mid < hi" using False by simp_all
    show ?thesis
    proof (cases "?mid * ?mid \<le> n")
      case True
      with False have eq: "sqrt_bisect lo hi n = sqrt_bisect ?mid hi n"
        by (subst sqrt_bisect.simps) (simp add: Let_def)
      from "1.IH"(1) [OF False refl True] "1.prems" m True show ?thesis
        unfolding eq by simp
    next
      case F2: False
      with False have eq: "sqrt_bisect lo hi n = sqrt_bisect lo ?mid n"
        by (subst sqrt_bisect.simps) (simp add: Let_def)
      from "1.IH"(2) [OF False refl F2] "1.prems" m F2 show ?thesis
        unfolding eq by simp
    qed
  qed
qed

lemma floor_sqrt_correct:
  assumes "0 \<le> n"
  shows "floor_sqrt n * floor_sqrt n \<le> n \<and> n < (floor_sqrt n + 1) * (floor_sqrt n + 1)
       \<and> 0 \<le> floor_sqrt n"
proof -
  have e: "(n + 1) * (n + 1) = n * n + 2 * n + 1" by (simp add: algebra_simps)
  have "0 \<le> n * n" by (rule zero_le_square)
  with assms have "n < (n + 1) * (n + 1)" unfolding e by linarith
  with assms show ?thesis
    unfolding floor_sqrt_def by (intro sqrt_bisect_correct) simp_all
qed

lemma std_sqrt_total: "0 \<le> x \<Longrightarrow> \<exists>r. std_sqrt x = Some r"
  by (simp add: std_sqrt_def Let_def)

lemma std_sqrt_nearest:
  assumes xpos: "0 < x" and r: "std_sqrt x = Some r"
  shows "2 powi (ilog2 x div 2 - 52) / 2 \<le> r
       \<and> (r - 2 powi (ilog2 x div 2 - 52) / 2) * (r - 2 powi (ilog2 x div 2 - 52) / 2) \<le> x
       \<and> x \<le> (r + 2 powi (ilog2 x div 2 - 52) / 2) * (r + 2 powi (ilog2 x div 2 - 52) / 2)"
proof -
  let ?e = "ilog2 x"
  define u :: rat where "u = 2 powi (?e div 2 - 52)"
  define y where "y = x / (u * u)"
  define s where "s = floor_sqrt \<lfloor>y\<rfloor>"
  define h where "h = (of_int s + 1 / 2) * (of_int s + 1 / 2 :: rat)"
  define N where "N = (if y < h then s else if h < y then s + 1 else if even s then s else s + 1)"
  have upos: "0 < u" by (simp add: u_def)
  have "std_sqrt x = Some (of_int N * u)"
    using xpos by (simp add: std_sqrt_def Let_def u_def y_def s_def h_def N_def)
  with r have rN: "r = of_int N * u" by simp
  have xy: "x = y * (u * u)" using upos by (simp add: y_def)
  have "u * u = 2 powi ((?e div 2 - 52) + (?e div 2 - 52))"
    unfolding u_def by (rule power_int_add [symmetric]) simp
  also have "\<dots> \<le> 2 powi ?e" by (rule power_int_increasing) simp_all
  also have "\<dots> \<le> x" using xpos by (rule ilog2_lower)
  finally have "u * u \<le> x" .
  then have y1: "1 \<le> y" using upos by (simp add: y_def)
  then have fy: "1 \<le> \<lfloor>y\<rfloor>" by simp
  then have "0 \<le> \<lfloor>y\<rfloor>" by simp
  from floor_sqrt_correct [OF this]
  have fs: "s * s \<le> \<lfloor>y\<rfloor>" "\<lfloor>y\<rfloor> < (s + 1) * (s + 1)" "0 \<le> s"
    by (simp_all add: s_def)
  have s1: "1 \<le> s"
  proof (rule ccontr)
    assume "\<not> 1 \<le> s"
    with fs(3) have "s = 0" by simp
    with fs(2) fy show False by simp
  qed
  then have s1': "(1::rat) \<le> of_int s" by simp
  have "(of_int (s * s) :: rat) \<le> of_int \<lfloor>y\<rfloor>" using fs(1) by (simp only: of_int_le_iff)
  moreover have "(of_int (s * s) :: rat) = of_int s * of_int s" by simp
  moreover have "of_int \<lfloor>y\<rfloor> \<le> y" by (rule of_int_floor_le)
  ultimately have lo: "(of_int s * of_int s :: rat) \<le> y" by linarith
  have "\<lfloor>y\<rfloor> + 1 \<le> (s + 1) * (s + 1)" using fs(2) by simp
  then have "(of_int (\<lfloor>y\<rfloor> + 1) :: rat) \<le> of_int ((s + 1) * (s + 1))"
    by (simp only: of_int_le_iff)
  moreover have "(of_int ((s + 1) * (s + 1)) :: rat) = (of_int s + 1) * (of_int s + 1)" by simp
  moreover have "y < of_int (\<lfloor>y\<rfloor> + 1)" by simp linarith
  ultimately have hi: "y < (of_int s + 1) * (of_int s + 1)" by linarith
  have a1: "(of_int s - 1 / 2) * (of_int s - 1 / 2) \<le> (of_int s * of_int s :: rat)"
    using s1' by (simp add: algebra_simps)
  have a2: "(of_int s + 1) * (of_int s + 1) \<le> (of_int s + 3 / 2) * (of_int s + 3 / 2 :: rat)"
    using s1' by (simp add: algebra_simps)
  have a3: "(of_int s - 1 / 2) * (of_int s - 1 / 2) \<le> h"
    using s1' by (simp add: h_def algebra_simps)
  have N1: "1 \<le> N" using s1 by (simp add: N_def)
  have bounds: "(of_int N - 1 / 2) * (of_int N - 1 / 2) \<le> y
              \<and> y \<le> (of_int N + 1 / 2) * (of_int N + 1 / 2)"
  proof (cases "N = s")
    case True
    then have "y \<le> h" by (auto simp: N_def split: if_splits)
    with True a1 lo show ?thesis by (simp add: h_def)
  next
    case False
    then have Ns: "N = s + 1" by (auto simp: N_def split: if_splits)
    with False have hy: "h \<le> y" by (auto simp: N_def split: if_splits)
    have m1: "(of_int N - 1 / 2 :: rat) = of_int s + 1 / 2" using Ns by simp
    have p1: "(of_int N + 1 / 2 :: rat) = of_int s + 3 / 2" using Ns by simp
    have "(of_int N - 1 / 2) * (of_int N - 1 / 2) \<le> y"
      unfolding m1 using hy by (simp only: h_def)
    moreover have "y \<le> (of_int N + 1 / 2) * (of_int N + 1 / 2)"
      unfolding p1 using a2 hi by linarith
    ultimately show ?thesis by (rule conjI)
  qed
  have e1: "(r - u / 2) * (r - u / 2) = (of_int N - 1 / 2) * (of_int N - 1 / 2) * (u * u)"
    by (simp add: rN algebra_simps)
  have e2: "(r + u / 2) * (r + u / 2) = (of_int N + 1 / 2) * (of_int N + 1 / 2) * (u * u)"
    by (simp add: rN algebra_simps)
  have uu: "0 \<le> u * u" using upos by simp
  have "(r - u / 2) * (r - u / 2) \<le> x"
    unfolding e1 xy using bounds uu by (intro mult_right_mono) simp_all
  moreover have "x \<le> (r + u / 2) * (r + u / 2)"
    unfolding e2 xy using bounds uu by (intro mult_right_mono) simp_all
  moreover have "u / 2 \<le> r"
  proof -
    have "(1::rat) \<le> of_int N" using N1 by simp
    then have "1 * u \<le> of_int N * u" using upos by (intro mult_right_mono) simp_all
    then show ?thesis using upos by (simp add: rN)
  qed
  ultimately show ?thesis by (simp add: u_def)
qed

subsection \<open>quantize\<close>

text \<open>
  Claim C1, as the code has it. For every double \<open>d\<close> and multiplier \<open>m\<close> with
  \<open>\<bar>d\<bar> \<le> m\<close> and \<open>m \<noteq> 0\<close>, \<open>quantize d m\<close> returns the exact scalar whose value is the
  integer obtained from the double-precision product \<open>(d / m) * 2^26\<close> by the conversion
  \<^verbatim>\<open>int(...)\<close>, which truncates toward zero (it does not round to nearest); that integer
  lies in the range \<open>[-2^26, 2^26]\<close>. The product is the double quotient \<open>fdiv d m\<close> times
  \<open>2^26\<close> exactly, the scaling by a power of two being exact.
\<close>

theorem quantize_truncates:
  assumes "\<bar>d\<bar> \<le> m" and "m \<noteq> 0"
  shows "quantize d m = Inr (of_int (trunc_toward_zero (fdiv d m * 2 ^ 26)))
       \<and> \<bar>trunc_toward_zero (fdiv d m * 2 ^ 26)\<bar> \<le> 2 ^ 26"
proof -
  from assms have mpos: "0 < m" by linarith
  let ?n = "fdiv d m"
  let ?y = "fmul ?n (2 ^ 26)"
  let ?t = "trunc_toward_zero ?y"
  have exact: "?y = ?n * 2 ^ 26" unfolding fdiv_def by (rule fmul_pow2_exact)
  have "\<bar>d / m\<bar> \<le> 2 ^ 0" using assms(1) mpos by (simp add: abs_divide field_simps)
  then have "\<bar>?n\<bar> \<le> 2 ^ 0" unfolding fdiv_def by (rule to_double_abs_le)
  then have "\<bar>?n * 2 ^ 26\<bar> \<le> 2 ^ 26" by (simp add: abs_mult)
  then have y: "\<bar>?y\<bar> \<le> 2 ^ 26" unfolding fmul_def by (rule to_double_abs_le)
  then have "\<bar>?y\<bar> \<le> of_int (2 ^ 26)" by simp
  then have t: "\<bar>?t\<bar> \<le> 2 ^ 26" by (rule trunc_toward_zero_abs_le)
  then have "- (2 ^ 31) \<le> ?t \<and> ?t < 2 ^ 31" by (simp add: abs_le_iff)
  then have conv: "double_to_int ?y = Inr ?t"
    by (simp add: double_to_int_def Let_def)
  have "quantize d m = Inr (of_int ?t)"
  proof (cases "d = 0")
    case True
    then have "?t = 0"
      by (simp add: fdiv_def fmul_def to_double_def trunc_toward_zero_def)
    with True assms mpos show ?thesis
      by (simp add: quantize_def MCUT_ASSERT_def zero_def rational_number_def)
  next
    case False
    with assms conv show ?thesis
      by (simp add: quantize_def MCUT_ASSERT_def rational_number_def Let_def)
  qed
  with t show ?thesis by (simp only: exact)
qed

text \<open>At \<open>d = 2\<close>, \<open>m = 3\<close>: the quotient rounds to a double just below \<open>2/3\<close>, the product
  is \<open>44739242.66\<dots>\<close>, and the conversion keeps \<open>44739242\<close>.\<close>

theorem quantize_truncates_witness:
  "\<bar>2 :: rat\<bar> \<le> 3 \<and> (3 :: rat) \<noteq> 0 \<and> quantize 2 3 = Inr 44739242"
proof -
  have "trunc_toward_zero (fdiv 2 3 * 2 ^ 26) = 44739242" by code_simp
  then show ?thesis using quantize_truncates [of 2 3] by simp
qed

text \<open>Claim C1 as stated fails: at \<open>d = 3/4\<close>, \<open>m = 2^26\<close> every step is exact, the product
  is \<open>3/4\<close>, \<open>quantize\<close> returns \<open>0\<close>, and \<open>round (d / m * 2^26) = 1\<close>.\<close>

theorem quantize_round_counterexample:
  "\<bar>3 / 4 :: rat\<bar> \<le> 2 ^ 26 \<and> (2 ^ 26 :: rat) \<noteq> 0
   \<and> quantize (3 / 4) (2 ^ 26) = Inr 0
   \<and> round (3 / 4 / 2 ^ 26 * 2 ^ 26 :: rat) = 1"
  by code_simp

text \<open>
  Claim C9, as the code has it. For every multiplier \<open>m > 0\<close>, \<open>quantize 0 m\<close> returns
  exactly \<open>zero\<close>, the rational number 0. (With \<open>d = 0\<close> the first assertion,
  \<open>\<bar>d\<bar> \<le> m\<close>, holds only for \<open>m \<ge> 0\<close>.)
\<close>

theorem quantize_zero:
  "0 < m \<Longrightarrow> quantize 0 m = Inr zero \<and> zero = 0"
  by (simp add: quantize_def MCUT_ASSERT_def zero_def rational_number_def)

theorem quantize_zero_witness:
  "(0 :: rat) < 1 \<and> quantize 0 1 = Inr zero \<and> zero = 0"
  using quantize_zero [of 1] by simp

text \<open>Claim C9 as stated fails at the multiplier \<open>m = - 1\<close>, which is not 0: the first
  assertion of \<open>quantize\<close> stops the call.\<close>

theorem quantize_zero_negative_multiplier:
  "(- 1 :: rat) \<noteq> 0 \<and> quantize 0 (- 1) = Inl AssertionFailed"
  by (simp add: quantize_def MCUT_ASSERT_def)

subsection \<open>length and normalize\<close>

lemma dot_product_eq:
  "dot_product a b = Inr (0 + m_x a * m_x b + m_y a * m_y b + m_z a * m_z b)"
  by (simp add: dot_product_def for_loop.simps and_then_def vec3_index_def MCUT_ASSERT_def
      rational_number_def)

lemma squared_length_eq:
  "squared_length v = Inr (m_x v * m_x v + m_y v * m_y v + m_z v * m_z v)"
  by (simp add: squared_length_def dot_product_eq)

text \<open>The conversion \<open>get_d\<close> goes toward zero, keeps the sign, and returns a double for
  every rational number below \<open>2^1024\<close> in magnitude.\<close>

lemma trunc_toward_zero_nonneg: "0 \<le> x \<Longrightarrow> 0 \<le> trunc_toward_zero x"
  by (simp add: trunc_toward_zero_def)

lemma trunc_toward_zero_toward_zero: "\<bar>of_int (trunc_toward_zero x) :: rat\<bar> \<le> \<bar>x\<bar>"
proof (cases "0 \<le> x")
  case True
  then have "0 \<le> \<lfloor>x\<rfloor>" by simp
  then have "\<bar>of_int \<lfloor>x\<rfloor> :: rat\<bar> = of_int \<lfloor>x\<rfloor>" by simp
  moreover have "of_int \<lfloor>x\<rfloor> \<le> x" by (rule of_int_floor_le)
  ultimately show ?thesis using True by (simp add: trunc_toward_zero_def)
next
  case False
  then have "\<lceil>x\<rceil> \<le> 0" by (simp add: ceiling_le_iff)
  then have "\<bar>of_int \<lceil>x\<rceil> :: rat\<bar> = - of_int \<lceil>x\<rceil>" by simp
  moreover have "x \<le> of_int \<lceil>x\<rceil>" by (rule le_of_int_ceiling)
  ultimately show ?thesis using False by (simp add: trunc_toward_zero_def)
qed

lemma get_d_finite:
  assumes "\<bar>r\<bar> < 2 ^ 1024"
  shows "\<exists>d. get_d r = Inr d"
proof (cases "r = 0")
  case True
  then show ?thesis by (simp add: get_d_def)
next
  case False
  then have "0 < \<bar>r\<bar>" by simp
  then have "2 powi (ilog2 \<bar>r\<bar>) \<le> \<bar>r\<bar>" by (rule ilog2_lower)
  with assms have "(2::rat) powi (ilog2 \<bar>r\<bar>) < 2 powi 1024" by simp
  then have "\<not> 1024 \<le> ilog2 \<bar>r\<bar>"
    using power_int_increasing [of 1024 "ilog2 \<bar>r\<bar>" "2::rat"] by auto
  with False show ?thesis by (simp add: get_d_def Let_def)
qed

lemma get_d_error: "get_d r = Inl e \<Longrightarrow> e = NotFinite"
  by (auto simp: get_d_def Let_def split: if_splits)

lemma get_d_nonneg:
  assumes "0 \<le> r" and "get_d r = Inr d"
  shows "0 \<le> d"
proof (cases "r = 0")
  case True
  with assms(2) show ?thesis by (simp add: get_d_def)
next
  case False
  let ?u = "(2::rat) powi (max (ilog2 \<bar>r\<bar> - 52) (- 1074))"
  have "0 \<le> r / ?u" using assms(1) by simp
  then have "0 \<le> trunc_toward_zero (r / ?u)" by (rule trunc_toward_zero_nonneg)
  then have "0 \<le> (of_int (trunc_toward_zero (r / ?u)) :: rat) * ?u" by simp
  with False assms(2) show ?thesis by (auto simp: get_d_def Let_def split: if_splits)
qed

lemma get_d_toward_zero:
  assumes "get_d r = Inr d"
  shows "\<bar>d\<bar> \<le> \<bar>r\<bar>"
proof (cases "r = 0")
  case True
  with assms show ?thesis by (simp add: get_d_def)
next
  case False
  let ?u = "(2::rat) powi (max (ilog2 \<bar>r\<bar> - 52) (- 1074))"
  have upos: "0 < ?u" by simp
  have d: "d = of_int (trunc_toward_zero (r / ?u)) * ?u"
    using False assms by (auto simp: get_d_def Let_def split: if_splits)
  have "\<bar>of_int (trunc_toward_zero (r / ?u)) :: rat\<bar> \<le> \<bar>r / ?u\<bar>"
    by (rule trunc_toward_zero_toward_zero)
  then have "\<bar>of_int (trunc_toward_zero (r / ?u)) :: rat\<bar> * ?u \<le> \<bar>r / ?u\<bar> * ?u"
    using upos by (intro mult_right_mono) simp_all
  moreover have "\<bar>r / ?u\<bar> * ?u = \<bar>r\<bar>" using upos by (simp add: abs_divide)
  moreover have "\<bar>d\<bar> = \<bar>of_int (trunc_toward_zero (r / ?u)) :: rat\<bar> * ?u"
    using upos by (simp add: d abs_mult)
  ultimately show ?thesis by simp
qed

lemma get_d_underflow: "get_d (1 / 2 ^ 1200) = Inr 0"
proof -
  define x :: rat where "x = 1 / 2 ^ 1200"
  have nz: "x \<noteq> 0" by (simp add: x_def)
  have e: "ilog2 \<bar>x\<bar> = - 1200"
    by (rule ilog2_unique) (simp_all add: x_def)
  have m: "max (ilog2 \<bar>x\<bar> - 52) (- 1074) = - 1074" by (simp add: e)
  have q: "x / 2 powi (- 1074) = 1 / 2 ^ 126" by (simp add: x_def)
  have t: "trunc_toward_zero (1 / 2 ^ 126) = 0"
    by (simp add: trunc_toward_zero_def floor_eq_iff)
  have "get_d x =
      Inr (of_int (trunc_toward_zero (x / 2 powi (max (ilog2 \<bar>x\<bar> - 52) (- 1074))))
           * 2 powi (max (ilog2 \<bar>x\<bar> - 52) (- 1074)))"
    using nz by (simp add: get_d_def Let_def e)
  also have "\<dots> = Inr 0" by (simp only: m q t) simp
  finally show ?thesis by (simp only: x_def)
qed

lemma get_d_overflow: "get_d (2 ^ 1200) = Inl NotFinite"
proof -
  define x :: rat where "x = 2 ^ 1200"
  have nz: "x \<noteq> 0" by (simp add: x_def)
  have e: "ilog2 \<bar>x\<bar> = 1200"
    by (rule ilog2_unique) (simp_all add: x_def)
  have "get_d x = Inl NotFinite" using nz by (simp add: get_d_def e)
  then show ?thesis by (simp only: x_def)
qed

lemma length_vec3_eq:
  "length_vec3 v m =
     and_then (get_d (m_x v * m_x v + m_y v * m_y v + m_z v * m_z v))
       (\<lambda>d. case std_sqrt d of None \<Rightarrow> Inl NotANumber | Some r \<Rightarrow> Inr r)"
  by (simp add: length_vec3_def squared_length_eq and_then_def rational_number_def
      split: sum.split option.split)

text \<open>At the ends of the range: a squared length of \<open>2^-1200\<close> becomes the double 0 and
  the length is 0; a squared length of \<open>2^1200\<close> has no finite double.\<close>

lemma length_vec3_range_ends:
  "length_vec3 (make_vec3 (1 / 2 ^ 600) 0 0) 1 = Inr 0
   \<and> length_vec3 (make_vec3 (2 ^ 600) 0 0) 1 = Inl NotFinite"
proof -
  have a: "m_x (make_vec3 (1 / 2 ^ 600) 0 0 :: scalar_t vec3) * m_x (make_vec3 (1 / 2 ^ 600) 0 0 :: scalar_t vec3)
         + m_y (make_vec3 (1 / 2 ^ 600) 0 0 :: scalar_t vec3) * m_y (make_vec3 (1 / 2 ^ 600) 0 0 :: scalar_t vec3)
         + m_z (make_vec3 (1 / 2 ^ 600) 0 0 :: scalar_t vec3) * m_z (make_vec3 (1 / 2 ^ 600) 0 0 :: scalar_t vec3)
         = 1 / 2 ^ 1200"
    by (simp add: make_vec3_def)
  have b: "m_x (make_vec3 (2 ^ 600) 0 0 :: scalar_t vec3) * m_x (make_vec3 (2 ^ 600) 0 0 :: scalar_t vec3)
         + m_y (make_vec3 (2 ^ 600) 0 0 :: scalar_t vec3) * m_y (make_vec3 (2 ^ 600) 0 0 :: scalar_t vec3)
         + m_z (make_vec3 (2 ^ 600) 0 0 :: scalar_t vec3) * m_z (make_vec3 (2 ^ 600) 0 0 :: scalar_t vec3)
         = 2 ^ 1200"
    by (simp add: make_vec3_def)
  have "length_vec3 (make_vec3 (1 / 2 ^ 600) 0 0) 1 = Inr 0"
    by (simp only: length_vec3_eq a get_d_underflow) (simp add: and_then_def std_sqrt_def)
  moreover have "length_vec3 (make_vec3 (2 ^ 600) 0 0) 1 = Inl NotFinite"
    by (simp only: length_vec3_eq b get_d_overflow) (simp add: and_then_def)
  ultimately show ?thesis by (rule conjI)
qed

lemma length_vec3_returns:
  assumes "m_x v * m_x v + m_y v * m_y v + m_z v * m_z v < 2 ^ 1024"
  shows "\<exists>r. length_vec3 v m = Inr r"
proof -
  let ?S = "m_x v * m_x v + m_y v * m_y v + m_z v * m_z v"
  have nn: "0 \<le> ?S" by simp
  then have "\<bar>?S\<bar> < 2 ^ 1024" using assms by simp
  then obtain d where d: "get_d ?S = Inr d" using get_d_finite by blast
  with nn have "0 \<le> d" by (rule get_d_nonneg)
  then obtain r where "std_sqrt d = Some r" using std_sqrt_total by blast
  with d show ?thesis by (simp add: length_vec3_eq and_then_def)
qed

lemma length_vec3_no_assertion: "length_vec3 v m \<noteq> Inl AssertionFailed"
proof -
  let ?S = "m_x v * m_x v + m_y v * m_y v + m_z v * m_z v"
  show ?thesis
  proof (cases "get_d ?S")
    case (Inl e)
    then have "e = NotFinite" by (rule get_d_error)
    with Inl show ?thesis by (simp add: length_vec3_eq and_then_def)
  next
    case (Inr d)
    then show ?thesis by (simp add: length_vec3_eq and_then_def split: option.split)
  qed
qed

text \<open>
  Claim C2, as the code has it. In exact-arithmetic mode \<open>length\<close> of a \<open>vec3\<close> does not
  call \<open>square_root\<close>: it ignores its multiplier; it returns \<open>r\<close> exactly when \<open>get_d\<close>
  converts the squared length to a double \<open>d\<close> and \<open>r\<close> is the floating-point square root of
  \<open>d\<close>, not quantized; it contains no assertion, and it returns whenever the squared length
  is below \<open>2^1024\<close>. \<open>normalize\<close> of a \<open>vec3\<close> does not depend on the multiplier either: it
  returns \<open>n\<close> exactly when that length is some \<open>l \<noteq> 0\<close> and \<open>n\<close> is \<open>v\<close> divided
  component-wise by \<open>l\<close>. \<open>square_root x m\<close>, which neither of them calls, returns \<open>q\<close>
  exactly when \<open>dequantize x m\<close> returns a double, \<open>std::sqrt\<close> of it is a number \<open>s\<close>, and
  \<open>quantize s m\<close>, with the same multiplier, returns \<open>q\<close>. For a \<open>vec2\<close>, \<open>length\<close> is the
  primary template, which stops at \<^verbatim>\<open>MCUT_ASSERT(false)\<close>, and so does \<open>normalize\<close>.
\<close>

theorem length_ignores_multiplier:
  fixes v n :: "scalar_t vec3" and w :: "scalar_t vec2"
  shows
  "length_vec3 v m = length_vec3 v m'
   \<and> (length_vec3 v m = Inr r) =
       (\<exists>d. get_d (m_x v * m_x v + m_y v * m_y v + m_z v * m_z v) = Inr d
            \<and> std_sqrt d = Some r)
   \<and> length_vec3 v m \<noteq> Inl AssertionFailed
   \<and> (m_x v * m_x v + m_y v * m_y v + m_z v * m_z v < 2 ^ 1024
        \<longrightarrow> (\<exists>l. length_vec3 v m = Inr l))
   \<and> normalize_vec3 v m = normalize_vec3 v m'
   \<and> (normalize_vec3 v m = Inr n) =
       (\<exists>l. length_vec3 v m = Inr l \<and> l \<noteq> 0
            \<and> n = make_vec3 (m_x v / l) (m_y v / l) (m_z v / l))
   \<and> (square_root x m = Inr q) =
       (\<exists>dequantized sqrt_val. dequantize x m = Inr dequantized
            \<and> std_sqrt dequantized = Some sqrt_val \<and> quantize sqrt_val m = Inr q)
   \<and> length_primary w m = Inl AssertionFailed
   \<and> normalize_vec2 w m = Inl AssertionFailed"
proof (intro conjI)
  show "length_vec3 v m = length_vec3 v m'" by (simp add: length_vec3_def)
  show "(length_vec3 v m = Inr r) =
       (\<exists>d. get_d (m_x v * m_x v + m_y v * m_y v + m_z v * m_z v) = Inr d
            \<and> std_sqrt d = Some r)"
    by (auto simp: length_vec3_eq and_then_def split: sum.splits option.splits)
  show "length_vec3 v m \<noteq> Inl AssertionFailed" by (rule length_vec3_no_assertion)
  show "m_x v * m_x v + m_y v * m_y v + m_z v * m_z v < 2 ^ 1024
        \<longrightarrow> (\<exists>l. length_vec3 v m = Inr l)"
    using length_vec3_returns by blast
  show "normalize_vec3 v m = normalize_vec3 v m'"
    by (simp add: normalize_vec3_def length_vec3_def)
  show "(normalize_vec3 v m = Inr n) =
       (\<exists>l. length_vec3 v m = Inr l \<and> l \<noteq> 0
            \<and> n = make_vec3 (m_x v / l) (m_y v / l) (m_z v / l))"
    by (auto simp: normalize_vec3_def vec3_divide_def and_then_def split: sum.splits)
  show "(square_root x m = Inr q) =
       (\<exists>dequantized sqrt_val. dequantize x m = Inr dequantized
            \<and> std_sqrt dequantized = Some sqrt_val \<and> quantize sqrt_val m = Inr q)"
    by (auto simp: square_root_def and_then_def split: sum.splits option.splits)
  show "length_primary w m = Inl AssertionFailed"
    by (simp add: length_primary_def MCUT_ASSERT_def)
  show "normalize_vec2 w m = Inl AssertionFailed"
    by (simp add: normalize_vec2_def length_primary_def MCUT_ASSERT_def and_then_def)
qed

text \<open>At \<open>v = (1, 2, 2)\<close> the squared length is 9, the length 3, and \<open>normalize\<close> returns
  \<open>(1/3, 2/3, 2/3)\<close>.\<close>

theorem length_ignores_multiplier_witness:
  "m_x (make_vec3 1 2 2 :: scalar_t vec3) * m_x (make_vec3 1 2 2 :: scalar_t vec3)
     + m_y (make_vec3 1 2 2 :: scalar_t vec3) * m_y (make_vec3 1 2 2 :: scalar_t vec3)
     + m_z (make_vec3 1 2 2 :: scalar_t vec3) * m_z (make_vec3 1 2 2 :: scalar_t vec3) = 9
   \<and> (9 :: rat) < 2 ^ 1024
   \<and> length_vec3 (make_vec3 1 2 2) 1 = Inr 3
   \<and> normalize_vec3 (make_vec3 1 2 2) 1 = Inr (make_vec3 (1 / 3) (2 / 3) (2 / 3))"
proof -
  have a: "length_vec3 (make_vec3 1 2 2) 1 = Inr 3" by code_simp
  have b: "normalize_vec3 (make_vec3 1 2 2) 1 = Inr (make_vec3 (1 / 3) (2 / 3) (2 / 3))"
    by code_simp
  from length_ignores_multiplier [of "make_vec3 1 2 2" 1 1 3 "make_vec3 (1 / 3) (2 / 3) (2 / 3)"]
    a b show ?thesis by (simp add: make_vec3_def)
qed

text \<open>Claim C2 as stated fails at \<open>v = (3, 4, 0)\<close> with multiplier 1: \<open>length\<close> is 5,
  while \<open>square_root\<close> of the squared length 25 dequantizes to \<open>25 / 2^26\<close>, takes the root
  \<open>5 / 2^13\<close> and quantizes it to \<open>5 * 2^13 = 40960\<close>.\<close>

theorem length_square_root_counterexample:
  "length_vec3 (make_vec3 3 4 0) 1 = Inr 5
   \<and> squared_length (make_vec3 3 4 0) = Inr 25
   \<and> square_root 25 1 = Inr 40960
   \<and> normalize_vec3 (make_vec3 3 4 0) 1 = Inr (make_vec3 (3 / 5) (4 / 5) 0)"
  by code_simp

subsection \<open>Orientation\<close>

text \<open>
  Claim C3. The exact orientation predicates are antisymmetric: for all points,
  \<open>orient2d a b c = - orient2d b a c\<close>, and \<open>orient3d a b c d\<close> is negated by the swap of
  any two of \<open>a\<close>, \<open>b\<close>, \<open>c\<close>. The points are arrays of (at least) 2 and 3 coordinates.
\<close>

theorem orient_antisymmetric:
  assumes "2 \<le> length pa" "2 \<le> length pb" "2 \<le> length pc"
    and "3 \<le> length qa" "3 \<le> length qb" "3 \<le> length qc" "3 \<le> length qd"
  shows "(\<exists>r. orient2d pa pb pc = Inr r \<and> orient2d pb pa pc = Inr (- r))
       \<and> (\<exists>r. orient3d qa qb qc qd = Inr r
              \<and> orient3d qb qa qc qd = Inr (- r)
              \<and> orient3d qa qc qb qd = Inr (- r)
              \<and> orient3d qc qb qa qd = Inr (- r))"
proof
  let ?r = "(pa ! 0 - pc ! 0) * (pb ! 1 - pc ! 1) - (pa ! 1 - pc ! 1) * (pb ! 0 - pc ! 0)"
  have "orient2d pa pb pc = Inr ?r"
    using assms(1-3) by (simp add: orient2d_def Let_def)
  moreover have "orient2d pb pa pc = Inr (- ?r)"
    using assms(1-3) by (simp add: orient2d_def Let_def algebra_simps)
  ultimately show "\<exists>r. orient2d pa pb pc = Inr r \<and> orient2d pb pa pc = Inr (- r)"
    by blast
next
  let ?adx = "qa ! 0 - qd ! 0" and ?bdx = "qb ! 0 - qd ! 0" and ?cdx = "qc ! 0 - qd ! 0"
  let ?ady = "qa ! 1 - qd ! 1" and ?bdy = "qb ! 1 - qd ! 1" and ?cdy = "qc ! 1 - qd ! 1"
  let ?adz = "qa ! 2 - qd ! 2" and ?bdz = "qb ! 2 - qd ! 2" and ?cdz = "qc ! 2 - qd ! 2"
  let ?r = "?adx * (?bdy * ?cdz - ?bdz * ?cdy) + ?bdx * (?cdy * ?adz - ?cdz * ?ady) +
            ?cdx * (?ady * ?bdz - ?adz * ?bdy)"
  have "orient3d qa qb qc qd = Inr ?r"
    using assms(4-7) by (simp add: orient3d_def Let_def)
  moreover have "orient3d qb qa qc qd = Inr (- ?r)"
    using assms(4-7) by (simp add: orient3d_def Let_def algebra_simps)
  moreover have "orient3d qa qc qb qd = Inr (- ?r)"
    using assms(4-7) by (simp add: orient3d_def Let_def algebra_simps)
  moreover have "orient3d qc qb qa qd = Inr (- ?r)"
    using assms(4-7) by (simp add: orient3d_def Let_def algebra_simps)
  ultimately show "\<exists>r. orient3d qa qb qc qd = Inr r
              \<and> orient3d qb qa qc qd = Inr (- r)
              \<and> orient3d qa qc qb qd = Inr (- r)
              \<and> orient3d qc qb qa qd = Inr (- r)"
    by blast
qed

theorem orient_antisymmetric_witness:
  "orient2d [0, 0] [1, 0] [0, 1] = Inr 1 \<and> orient2d [1, 0] [0, 0] [0, 1] = Inr (- 1)
   \<and> orient3d [1, 0, 0] [0, 1, 0] [0, 0, 1] [0, 0, 0] = Inr 1
   \<and> orient3d [0, 1, 0] [1, 0, 0] [0, 0, 1] [0, 0, 0] = Inr (- 1)
   \<and> orient3d [1, 0, 0] [0, 0, 1] [0, 1, 0] [0, 0, 0] = Inr (- 1)
   \<and> orient3d [0, 0, 1] [0, 1, 0] [1, 0, 0] [0, 0, 0] = Inr (- 1)"
  using orient_antisymmetric [of "[0, 0]" "[1, 0]" "[0, 1]"
      "[1, 0, 0]" "[0, 1, 0]" "[0, 0, 1]" "[0, 0, 0]"]
  by (simp add: orient2d_def orient3d_def)

subsection \<open>Bounding boxes\<close>

lemma min_t_eq_min: "min_t a b = min a (b::'a::linorder)"
  by (auto simp: min_t_def min_def)

lemma max_t_eq_max: "max_t a b = max a (b::'a::linorder)"
  by (auto simp: max_t_def max_def)

lemma expand_eq:
  "expand box p =
     \<lparr>m_minimum = compwise_min (m_minimum box) p, m_maximum = compwise_max (m_maximum box) p\<rparr>"
  by (cases box) (simp add: expand_def Let_def)

lemma compwise_min_eq:
  fixes a b :: "'a::linorder vec3"
  shows "compwise_min a b =
     \<lparr>m_x = min (m_x a) (m_x b), m_y = min (m_y a) (m_y b), m_z = min (m_z a) (m_z b)\<rparr>"
  by (simp add: compwise_min_def make_vec3_def min_t_eq_min)

lemma compwise_max_eq:
  fixes a b :: "'a::linorder vec3"
  shows "compwise_max a b =
     \<lparr>m_x = max (m_x a) (m_x b), m_y = max (m_y a) (m_y b), m_z = max (m_z a) (m_z b)\<rparr>"
  by (simp add: compwise_max_def make_vec3_def max_t_eq_max)

text \<open>
  Claim C4, as the code has it. For every bounding box, \<open>MaximumExtent\<close> returns the index
  (0, 1 or 2) of an axis whose extent, maximum minus minimum, is greatest; when two or more
  axes tie for the greatest extent it returns the highest tied index (z beats y beats x):
  it returns 0 only when the x extent is strictly greater than both others, and 1 only when
  the y extent is strictly greater than the z extent.
\<close>

theorem MaximumExtent_ties_high:
  "(MaximumExtent box = 0 \<or> MaximumExtent box = 1 \<or> MaximumExtent box = 2)
   \<and> (MaximumExtent box = 0 \<longleftrightarrow>
        m_y (m_maximum box) - m_y (m_minimum box) < m_x (m_maximum box) - m_x (m_minimum box)
      \<and> m_z (m_maximum box) - m_z (m_minimum box) < m_x (m_maximum box) - m_x (m_minimum box))
   \<and> (MaximumExtent box = 1 \<longleftrightarrow>
        m_x (m_maximum box) - m_x (m_minimum box) \<le> m_y (m_maximum box) - m_y (m_minimum box)
      \<and> m_z (m_maximum box) - m_z (m_minimum box) < m_y (m_maximum box) - m_y (m_minimum box))
   \<and> (MaximumExtent box = 2 \<longleftrightarrow>
        m_x (m_maximum box) - m_x (m_minimum box) \<le> m_z (m_maximum box) - m_z (m_minimum box)
      \<and> m_y (m_maximum box) - m_y (m_minimum box) \<le> m_z (m_maximum box) - m_z (m_minimum box))"
  by (auto simp: MaximumExtent_def vec3_minus_def make_vec3_def Let_def)

text \<open>Claim C4 as stated fails for the box from \<open>(0, 0, 0)\<close> to \<open>(1, 1, 0)\<close>: the extents
  are \<open>(1, 1, 0)\<close>, x and y tie, and the result is 1, not the lower index 0.\<close>

theorem MaximumExtent_tie_counterexample:
  "MaximumExtent \<lparr>m_minimum = make_vec3 0 0 0, m_maximum = make_vec3 1 1 0\<rparr> = 1
   \<and> vec3_minus (make_vec3 1 1 0) (make_vec3 0 0 0) = make_vec3 (1::rat) 1 0"
  by (simp add: MaximumExtent_def vec3_minus_def make_vec3_def)

text \<open>
  Claim C5, as the code has it. A default-constructed bounding box has its minimum set to
  the largest finite double, \<open>DBL_MAX\<close>, and its maximum to \<open>- DBL_MAX\<close> on every axis
  (not to infinities), so that the first \<open>expand\<close> with a point whose coordinates all lie
  in \<open>[- DBL_MAX, DBL_MAX]\<close> sets minimum and maximum to that point.
\<close>

theorem default_box_first_expand:
  assumes "vec3_le (vec3_splat (- DBL_MAX)) p" and "vec3_le p (vec3_splat DBL_MAX)"
  shows "m_minimum bounding_box_default = vec3_splat DBL_MAX
       \<and> m_maximum bounding_box_default = vec3_splat (- DBL_MAX)
       \<and> m_minimum (expand bounding_box_default p) = p
       \<and> m_maximum (expand bounding_box_default p) = p"
  using assms
  by (cases p)
     (simp add: bounding_box_default_def expand_eq compwise_min_eq compwise_max_eq
        vec3_splat_def vec3_le_def rational_number_def min_absorb2 max_absorb2)

theorem default_box_first_expand_witness:
  "vec3_le (vec3_splat (- DBL_MAX)) (make_vec3 1 (- 2) 3)
   \<and> vec3_le (make_vec3 1 (- 2) 3) (vec3_splat DBL_MAX)
   \<and> expand bounding_box_default (make_vec3 1 (- 2) 3)
       = \<lparr>m_minimum = make_vec3 1 (- 2) 3, m_maximum = make_vec3 1 (- 2) 3\<rparr>"
proof -
  have a: "vec3_le (vec3_splat (- DBL_MAX)) (make_vec3 1 (- 2) 3)"
    by (simp add: vec3_le_def vec3_splat_def make_vec3_def DBL_MAX_def)
  have b: "vec3_le (make_vec3 1 (- 2) 3) (vec3_splat DBL_MAX)"
    by (simp add: vec3_le_def vec3_splat_def make_vec3_def DBL_MAX_def)
  from default_box_first_expand [OF a b] a b show ?thesis
    by (cases "expand bounding_box_default (make_vec3 1 (- 2) 3)") simp
qed

text \<open>Claim C5 as stated fails: the sentinel is the finite \<open>DBL_MAX < 2^1024\<close>, and the
  first \<open>expand\<close> with the point \<open>(2^1024, 0, 0)\<close> leaves the minimum at
  \<open>(DBL_MAX, 0, 0)\<close>, which is neither the point nor the new maximum.\<close>

theorem default_box_sentinel_counterexample:
  "m_x (m_minimum bounding_box_default) = DBL_MAX \<and> DBL_MAX < 2 ^ 1024
   \<and> m_minimum (expand bounding_box_default (make_vec3 (2 ^ 1024) 0 0))
       = make_vec3 DBL_MAX 0 0
   \<and> m_maximum (expand bounding_box_default (make_vec3 (2 ^ 1024) 0 0))
       = make_vec3 (2 ^ 1024) 0 0"
  by (simp add: bounding_box_default_def expand_eq compwise_min_eq compwise_max_eq
      make_vec3_def vec3_splat_def rational_number_def DBL_MAX_def)

text \<open>
  Claim C6. Expansion is idempotent and monotone: \<open>expand\<close> with a point \<open>p\<close> that
  satisfies \<open>minimum \<le> p \<le> maximum\<close> component-wise leaves the box unchanged, and for every
  point the new minimum is component-wise \<open>\<le>\<close> the old minimum and the new maximum
  component-wise \<open>\<ge>\<close> the old maximum. (It holds for every box, also one whose minimum is
  not below its maximum.)
\<close>

theorem expand_idempotent_monotone:
  fixes box :: "'a::linorder vec3 bounding_box_t"
  shows "(vec3_le (m_minimum box) p \<and> vec3_le p (m_maximum box) \<longrightarrow> expand box p = box)
       \<and> vec3_le (m_minimum (expand box p)) (m_minimum box)
       \<and> vec3_le (m_maximum box) (m_maximum (expand box p))"
  by (cases box, cases "m_minimum box", cases "m_maximum box")
     (simp add: expand_eq compwise_min_eq compwise_max_eq vec3_le_def min_absorb1 max_absorb1)

theorem expand_idempotent_monotone_witness:
  "vec3_le (make_vec3 0 0 0) (make_vec3 1 2 (3::rat))
   \<and> vec3_le (make_vec3 1 2 3) (make_vec3 4 4 (4::rat))
   \<and> expand \<lparr>m_minimum = make_vec3 0 0 0, m_maximum = make_vec3 4 4 4\<rparr> (make_vec3 1 2 (3::rat))
       = \<lparr>m_minimum = make_vec3 0 0 0, m_maximum = make_vec3 4 4 4\<rparr>"
  using expand_idempotent_monotone
    [of "\<lparr>m_minimum = make_vec3 0 0 0, m_maximum = make_vec3 4 4 (4::rat)\<rparr>" "make_vec3 1 2 3"]
  by (simp add: vec3_le_def make_vec3_def)

text \<open>
  Claim C7. For every pair of bounding boxes, \<open>intersect_bounding_boxes a b =
  intersect_bounding_boxes b a\<close>. The overlap is that of closed intervals: two boxes, each
  with minimum \<open>\<le>\<close> maximum, intersect exactly when some point lies in both, boundaries
  included.
\<close>

theorem intersect_bounding_boxes_symmetric:
  fixes a b :: "'a::linorder vec3 bounding_box_t"
  shows "intersect_bounding_boxes a b = intersect_bounding_boxes b a
       \<and> (vec3_le (m_minimum a) (m_maximum a) \<and> vec3_le (m_minimum b) (m_maximum b) \<longrightarrow>
            intersect_bounding_boxes a b =
              (\<exists>p. vec3_le (m_minimum a) p \<and> vec3_le p (m_maximum a)
                 \<and> vec3_le (m_minimum b) p \<and> vec3_le p (m_maximum b)))"
proof (intro conjI impI)
  show "intersect_bounding_boxes a b = intersect_bounding_boxes b a"
    by (auto simp: intersect_bounding_boxes_def Let_def)
next
  assume wf: "vec3_le (m_minimum a) (m_maximum a) \<and> vec3_le (m_minimum b) (m_maximum b)"
  show "intersect_bounding_boxes a b =
      (\<exists>p. vec3_le (m_minimum a) p \<and> vec3_le p (m_maximum a)
          \<and> vec3_le (m_minimum b) p \<and> vec3_le p (m_maximum b))"
  proof
    assume i: "intersect_bounding_boxes a b"
    let ?p = "make_vec3 (max (m_x (m_minimum a)) (m_x (m_minimum b)))
                        (max (m_y (m_minimum a)) (m_y (m_minimum b)))
                        (max (m_z (m_minimum a)) (m_z (m_minimum b)))"
    have "vec3_le (m_minimum a) ?p \<and> vec3_le ?p (m_maximum a)
        \<and> vec3_le (m_minimum b) ?p \<and> vec3_le ?p (m_maximum b)"
      using i wf by (simp add: intersect_bounding_boxes_def Let_def vec3_le_def make_vec3_def)
    then show "\<exists>p. vec3_le (m_minimum a) p \<and> vec3_le p (m_maximum a)
          \<and> vec3_le (m_minimum b) p \<and> vec3_le p (m_maximum b)" by blast
  next
    assume "\<exists>p. vec3_le (m_minimum a) p \<and> vec3_le p (m_maximum a)
          \<and> vec3_le (m_minimum b) p \<and> vec3_le p (m_maximum b)"
    then obtain p where "vec3_le (m_minimum a) p" "vec3_le p (m_maximum a)"
         "vec3_le (m_minimum b) p" "vec3_le p (m_maximum b)" by blast
    then show "intersect_bounding_boxes a b"
      by (auto simp: intersect_bounding_boxes_def Let_def vec3_le_def intro: order_trans)
  qed
qed

text \<open>Two unit cubes that share only the corner \<open>(1, 1, 1)\<close> intersect, in either order.\<close>

theorem intersect_bounding_boxes_symmetric_witness:
  "vec3_le (make_vec3 0 0 (0::rat)) (make_vec3 1 1 1)
   \<and> vec3_le (make_vec3 1 1 (1::rat)) (make_vec3 2 2 2)
   \<and> intersect_bounding_boxes
        \<lparr>m_minimum = make_vec3 0 0 (0::rat), m_maximum = make_vec3 1 1 1\<rparr>
        \<lparr>m_minimum = make_vec3 1 1 1, m_maximum = make_vec3 2 2 2\<rparr>
   \<and> intersect_bounding_boxes
        \<lparr>m_minimum = make_vec3 1 1 (1::rat), m_maximum = make_vec3 2 2 2\<rparr>
        \<lparr>m_minimum = make_vec3 0 0 0, m_maximum = make_vec3 1 1 1\<rparr>"
  using intersect_bounding_boxes_symmetric
    [of "\<lparr>m_minimum = make_vec3 0 0 (0::rat), m_maximum = make_vec3 1 1 1\<rparr>"
        "\<lparr>m_minimum = make_vec3 1 1 1, m_maximum = make_vec3 2 2 2\<rparr>"]
  by (simp add: vec3_le_def make_vec3_def intersect_bounding_boxes_def)

subsection \<open>Matrices\<close>

text \<open>
  Claim C8 does not hold of \<open>operator*\<close> on two matrices, which has no assertion, while
  \<open>operator-\<close> has both of its own. A \<open>1 \<times> 1\<close> matrix \<open>[2]\<close> times a \<open>2 \<times> 1\<close> matrix
  \<open>[3; 5]\<close> (one column against two rows) returns the \<open>1 \<times> 1\<close> matrix \<open>[6]\<close>; the
  subtraction of the same operands stops at its first assertion.
\<close>

theorem matrix_times_mismatch_unchecked:
  "m_cols \<lparr>m_rows = 1, m_cols = 1, m_entries = [2::rat]\<rparr>
     \<noteq> m_rows \<lparr>m_rows = 2, m_cols = 1, m_entries = [3, 5::rat]\<rparr>
   \<and> matrix_times \<lparr>m_rows = 1, m_cols = 1, m_entries = [2::rat]\<rparr>
                   \<lparr>m_rows = 2, m_cols = 1, m_entries = [3, 5]\<rparr>
       = Inr \<lparr>m_rows = 1, m_cols = 1, m_entries = [6]\<rparr>
   \<and> matrix_minus \<lparr>m_rows = 1, m_cols = 1, m_entries = [2::rat]\<rparr>
                   \<lparr>m_rows = 2, m_cols = 1, m_entries = [3, 5]\<rparr>
       = Inl AssertionFailed"
  by (simp add: matrix_times_def matrix_minus_def MCUT_ASSERT_def for_loop.simps and_then_def
      matrix_get_def matrix_set_def matrix_ctor_def entry_offset_def)

subsection \<open>Equality of vectors\<close>

text \<open>
  Claim C10, as the code has it. The member \<open>operator==\<close> that \<open>vec3_\<close> inherits from
  \<open>vec2_\<close> ignores the third component: for 3D vectors \<open>a\<close>, \<open>b\<close> with equal x and y and
  different z it returns true. For operands of type \<open>vec3\<close> (\<open>vec3_<scalar_t>\<close>) the
  expression \<open>a == b\<close> is not that member but the free \<open>operator==(const vec3&, const
  vec3&)\<close> declared in math.h, which compares all three components and returns false.
\<close>

theorem vec3_member_equality_ignores_z:
  fixes a b :: "scalar_t vec3"
  assumes "m_x a = m_x b" and "m_y a = m_y b" and "m_z a \<noteq> m_z b"
  shows "vec2_operator_eq a b \<and> \<not> vec3_operator_eq a b"
  using assms by (simp add: vec2_operator_eq_def vec3_operator_eq_def)

theorem vec3_member_equality_ignores_z_witness:
  "vec2_operator_eq (make_vec3 1 2 (3::rat)) (make_vec3 1 2 (4::rat))
   \<and> \<not> vec3_operator_eq (make_vec3 1 2 3) (make_vec3 1 2 4)"
  using vec3_member_equality_ignores_z [of "make_vec3 1 2 3" "make_vec3 1 2 4"]
  by (simp add: make_vec3_def)

text \<open>Claim C10 as stated fails for the \<open>vec3\<close> values \<open>(1, 2, 3)\<close> and \<open>(1, 2, 4)\<close>.\<close>

theorem vec3_equality_counterexample:
  "m_x (make_vec3 1 2 (3::rat)) = m_x (make_vec3 1 2 (4::rat))
   \<and> m_y (make_vec3 1 2 (3::rat)) = m_y (make_vec3 1 2 (4::rat))
   \<and> m_z (make_vec3 1 2 (3::rat)) \<noteq> m_z (make_vec3 1 2 (4::rat))
   \<and> vec3_operator_eq (make_vec3 1 2 3) (make_vec3 1 2 4) = False"
  by (simp add: make_vec3_def vec3_operator_eq_def)

end
